theory Spec2Isabelle
  imports Complex_Main "HOL-Library.AList" "HOL-Library.Char_ord" "HOL-Library.List_Lexorder"
begin

section \<open>JSON-like documents\<close>

text \<open>
  The pipeline exchanges documents through \<^verbatim>\<open>json.load\<close> / \<^verbatim>\<open>json.dump\<close>.
  A document value is a closed sum; a mapping is an association list in insertion order
  (Python dictionaries keep insertion order and never hold a key twice).
  A JSON number is loaded as a Python \<^verbatim>\<open>int\<close> or as a \<^verbatim>\<open>float\<close>; a float is modelled by its
  real value (the floats that are not finite, \<^verbatim>\<open>nan\<close> and the infinities, which
  \<^verbatim>\<open>json.loads\<close> can also return, are left out).
\<close>

datatype json =
    JNull
  | JBool bool
  | JNum int
  | JFloat real
  | JStr string
  | JArr "json list"
  | JObj "(string \<times> json) list"

type_synonym json_obj = "(string \<times> json) list"

text \<open>Python's \<^verbatim>\<open>isinstance(v, dict)\<close> and \<^verbatim>\<open>isinstance(v, list)\<close>.\<close>

fun is_dict :: "json \<Rightarrow> bool" where
  "is_dict (JObj d) = True"
| "is_dict v = False"

fun is_list :: "json \<Rightarrow> bool" where
  "is_list (JArr xs) = True"
| "is_list v = False"

text \<open>Truthiness, as tested by \<^verbatim>\<open>not v\<close>.\<close>

fun truthy :: "json \<Rightarrow> bool" where
  "truthy JNull = False"
| "truthy (JBool b) = b"
| "truthy (JNum n) = (n \<noteq> 0)"
| "truthy (JFloat x) = (x \<noteq> 0)"
| "truthy (JStr s) = (s \<noteq> [])"
| "truthy (JArr xs) = (xs \<noteq> [])"
| "truthy (JObj d) = (d \<noteq> [])"

text \<open>\<^verbatim>\<open>d.get(k)\<close> (missing gives \<^verbatim>\<open>None\<close>) and \<^verbatim>\<open>d.get(k, default)\<close>.\<close>

definition dict_get_default :: "json_obj \<Rightarrow> string \<Rightarrow> json \<Rightarrow> json" where
  "dict_get_default d k dflt = (case map_of d k of None \<Rightarrow> dflt | Some v \<Rightarrow> v)"

definition dict_get :: "json_obj \<Rightarrow> string \<Rightarrow> json" where
  "dict_get d k = dict_get_default d k JNull"

text \<open>\<^verbatim>\<open>list(d.keys())\<close>.\<close>

definition keys :: "('k \<times> 'v) list \<Rightarrow> 'k list" where
  "keys d = map fst d"

section \<open>Drift vocabulary (schema\_drift\_config.py)\<close>

definition CANON_KEY :: string where
  "CANON_KEY = ''functions''"

definition RENAME_VARIANTS :: "string list" where
  "RENAME_VARIANTS =
     [''function'', ''Functions'', ''funcs'', ''fn_map'', ''function_map'',
      ''functions_map'', ''functions_dict'']"

definition WRAPPER_VARIANTS :: "string list" where
  "WRAPPER_VARIANTS =
     [''wrapper'', ''new_wrapper'', ''new_schema'', ''new_layout'', ''wrapped'',
      ''temp_wrapper'']"

definition EXTRA_STRUCT_KEYS :: "string list" where
  "EXTRA_STRUCT_KEYS = [''extra_struct_1'', ''extra_struct_2'', ''temp_block'', ''temp_struct'']"

text \<open>\<^verbatim>\<open>find_functions_key\<close>: the canonical key if present, else the first rename variant present.\<close>

definition find_functions_key :: "json_obj \<Rightarrow> string option" where
  "find_functions_key patch =
     (if CANON_KEY \<in> set (keys patch) then Some CANON_KEY
      else List.find (\<lambda>k. k \<in> set (keys patch)) RENAME_VARIANTS)"


section \<open>Errors\<close>

text \<open>The exceptions the modelled code raises, with the message of the \<^verbatim>\<open>raise\<close>.\<close>

datatype py_error =
    KeyError string
  | TypeError string
  | ValueError string
  | RuntimeError string

section \<open>Repair engine (SchemaRepairPatcher.apply\_plan\_to\_patch)\<close>

text \<open>
  The patch handed to the engine comes from JSON, so its keys are strings; but
  \<^verbatim>\<open>patch[dst] = patch.pop(src)\<close> stores under whatever hashable value the plan gives
  as \<^verbatim>\<open>to\<close>. Top-level keys are therefore any hashable Python scalar: a string, a number
  (\<^verbatim>\<open>True\<close> is the key \<^verbatim>\<open>1\<close>, \<^verbatim>\<open>False\<close> is \<^verbatim>\<open>0\<close>, and a float with an integral value is the
  same key as that integer) or \<^verbatim>\<open>None\<close>. Lists and dictionaries are unhashable: using one
  as a key raises \<^verbatim>\<open>TypeError\<close>.
\<close>

datatype pykey = KStr string | KNum int | KFloat real | KNone

type_synonym patch = "(pykey \<times> json) list"

fun hash_key :: "json \<Rightarrow> pykey option" where
  "hash_key JNull = Some KNone"
| "hash_key (JBool b) = Some (KNum (if b then 1 else 0))"
| "hash_key (JNum n) = Some (KNum n)"
| "hash_key (JFloat x) = Some (if of_int \<lfloor>x\<rfloor> = x then KNum \<lfloor>x\<rfloor> else KFloat x)"
| "hash_key (JStr s) = Some (KStr s)"
| "hash_key (JArr xs) = None"
| "hash_key (JObj d) = None"

definition patch_of_obj :: "json_obj \<Rightarrow> patch" where
  "patch_of_obj d = map (\<lambda>(k, v). (KStr k, v)) d"

text \<open>
  One constructor per log-line template of the source, carrying the loop index and the
  interpolated values.
\<close>

datatype log_line =
    InvalidActionSkipped nat
  | RenameMissingSkipped nat
  | RenameApplied nat json json
  | RenameNoChange nat json json
  | UnwrapInvalidSkipped nat
  | UnwrapApplied nat json
  | UnwrapNoChange nat json
  | UnknownOpSkipped nat json

fun is_applied :: "log_line \<Rightarrow> bool" where
  "is_applied (RenameApplied i s d) = True"
| "is_applied (UnwrapApplied i w) = True"
| "is_applied l = False"

text \<open>\<^verbatim>\<open>a.get("op") if isinstance(a, dict) else None\<close>.\<close>

definition op_of :: "json \<Rightarrow> json" where
  "op_of a = (case a of JObj d \<Rightarrow> dict_get d ''op'' | _ \<Rightarrow> JNull)"

text \<open>
  \<^verbatim>\<open>priority.get(op, 99)\<close> with \<^verbatim>\<open>priority = {"rename_key": 0, "unwrap": 1}\<close>.
  The lookup hashes \<^verbatim>\<open>op\<close>, so a list or dictionary there raises \<^verbatim>\<open>TypeError\<close>.
\<close>

definition op_unhashable :: "json \<Rightarrow> bool" where
  "op_unhashable a = (hash_key (op_of a) = None)"

definition priority :: "json \<Rightarrow> nat" where
  "priority a =
     (if op_of a = JStr ''rename_key'' then 0
      else if op_of a = JStr ''unwrap'' then 1
      else 99)"

text \<open>\<^verbatim>\<open>sorted(actions, key=...)\<close>: a stable sort; all keys are computed before any action runs.\<close>

definition sorted_actions :: "json list \<Rightarrow> py_error + json list" where
  "sorted_actions actions =
     (if list_ex op_unhashable actions then Inl (TypeError ''unhashable type'')
      else Inr (sort_key priority actions))"

text \<open>
  The \<^verbatim>\<open>rename_key\<close> branch of the loop body. \<^verbatim>\<open>src in patch\<close> hashes \<^verbatim>\<open>src\<close>;
  \<^verbatim>\<open>dst not in patch\<close> is evaluated (and hashes \<^verbatim>\<open>dst\<close>) only when \<^verbatim>\<open>src\<close> is a key.
  \<^verbatim>\<open>patch[dst] = patch.pop(src)\<close> removes \<^verbatim>\<open>src\<close> and appends \<^verbatim>\<open>dst\<close> at the end.
  The action's \<^verbatim>\<open>path\<close> is never read.
\<close>

definition apply_rename :: "nat \<Rightarrow> json_obj \<Rightarrow> patch \<Rightarrow> py_error + (patch \<times> log_line)" where
  "apply_rename i a patch =
     (let src = dict_get a ''from''; dst = dict_get a ''to'' in
      if \<not> truthy src \<or> \<not> truthy dst then Inr (patch, RenameMissingSkipped i)
      else
        (case hash_key src of
           None \<Rightarrow> Inl (TypeError ''unhashable type'')
         | Some s \<Rightarrow>
             (case map_of patch s of
                None \<Rightarrow> Inr (patch, RenameNoChange i src dst)
              | Some v \<Rightarrow>
                  (case hash_key dst of
                     None \<Rightarrow> Inl (TypeError ''unhashable type'')
                   | Some d \<Rightarrow>
                       if d \<in> set (keys patch) then Inr (patch, RenameNoChange i src dst)
                       else Inr (AList.delete s patch @ [(d, v)], RenameApplied i src dst)))))"

text \<open>
  The \<^verbatim>\<open>unwrap\<close> branch of the loop body. \<^verbatim>\<open>wrapper_key in container\<close> is evaluated (and
  hashes \<^verbatim>\<open>wrapper_key\<close>) only when the container is a dictionary; the keys of a nested
  mapping are strings, so only a string can be among them.
  \<^verbatim>\<open>patch[CANON_KEY] = ...\<close> overwrites an existing key in place.
\<close>

definition apply_unwrap :: "nat \<Rightarrow> json_obj \<Rightarrow> patch \<Rightarrow> py_error + (patch \<times> log_line)" where
  "apply_unwrap i a patch =
     (let path = dict_get_default a ''path'' (JArr []); wrapper_key = dict_get a ''wrapper_key'' in
      if path \<noteq> JArr [JStr CANON_KEY] \<or> \<not> truthy wrapper_key then Inr (patch, UnwrapInvalidSkipped i)
      else
        (case map_of patch (KStr CANON_KEY) of
           Some (JObj container) \<Rightarrow>
             (case hash_key wrapper_key of
                None \<Rightarrow> Inl (TypeError ''unhashable type'')
              | Some (KStr w) \<Rightarrow>
                  (case map_of container w of
                     Some (JObj inner) \<Rightarrow>
                       Inr (AList.update (KStr CANON_KEY) (JObj inner) patch,
                            UnwrapApplied i wrapper_key)
                   | _ \<Rightarrow> Inr (patch, UnwrapNoChange i wrapper_key))
              | Some _ \<Rightarrow> Inr (patch, UnwrapNoChange i wrapper_key))
         | _ \<Rightarrow> Inr (patch, UnwrapNoChange i wrapper_key)))"

text \<open>One iteration of \<^verbatim>\<open>for i, a in enumerate(actions)\<close>.\<close>

definition apply_action :: "nat \<Rightarrow> json \<Rightarrow> patch \<Rightarrow> py_error + (patch \<times> log_line)" where
  "apply_action i a patch =
     (case a of
        JObj d \<Rightarrow>
          (let op = dict_get d ''op'' in
           if op = JStr ''rename_key'' then apply_rename i d patch
           else if op = JStr ''unwrap'' then apply_unwrap i d patch
           else Inr (patch, UnknownOpSkipped i op))
      | _ \<Rightarrow> Inr (patch, InvalidActionSkipped i))"

text \<open>The loop: the patch is updated in place, one log line is appended per action.\<close>

fun run_actions :: "nat \<Rightarrow> json list \<Rightarrow> patch \<Rightarrow> log_line list \<Rightarrow> py_error + (patch \<times> log_line list)" where
  "run_actions i [] patch logs = Inr (patch, logs)"
| "run_actions i (a # as) patch logs =
     (case apply_action i a patch of
        Inl e \<Rightarrow> Inl e
      | Inr (patch', l) \<Rightarrow> run_actions (Suc i) as patch' (logs @ [l]))"

definition apply_plan_to_patch :: "patch \<Rightarrow> json_obj \<Rightarrow> py_error + (patch \<times> log_line list)" where
  "apply_plan_to_patch patch plan =
     (case dict_get_default plan ''actions'' (JArr []) of
        JArr actions \<Rightarrow>
          (case sorted_actions actions of
             Inl e \<Rightarrow> Inl e
           | Inr acts \<Rightarrow> run_actions 0 acts patch [])
      | _ \<Rightarrow> Inl (ValueError ''Plan actions must be a list.''))"

text \<open>The three kinds of action the sort key tells apart.\<close>

definition is_rename :: "json \<Rightarrow> bool" where
  "is_rename a = (op_of a = JStr ''rename_key'')"

definition is_unwrap :: "json \<Rightarrow> bool" where
  "is_unwrap a = (op_of a = JStr ''unwrap'')"

definition is_other :: "json \<Rightarrow> bool" where
  "is_other a = (\<not> is_rename a \<and> \<not> is_unwrap a)"

text \<open>The value at the canonical key is a mapping.\<close>

definition has_dict_container :: "patch \<Rightarrow> bool" where
  "has_dict_container p = (case map_of p (KStr CANON_KEY) of Some (JObj c) \<Rightarrow> True | _ \<Rightarrow> False)"

text \<open>
  An unwrap action is applicable to a patch when the loop body would take its
  \<^verbatim>\<open>Applied\<close> branch: the path is the canonical one, and the functions container is a
  mapping that holds a mapping under the action's wrapper key.
\<close>

definition unwrap_applicable :: "json \<Rightarrow> patch \<Rightarrow> bool" where
  "unwrap_applicable u p =
     (case u of
        JObj a \<Rightarrow>
          dict_get a ''op'' = JStr ''unwrap'' \<and>
          dict_get_default a ''path'' (JArr []) = JArr [JStr CANON_KEY] \<and>
          (case (map_of p (KStr CANON_KEY), dict_get a ''wrapper_key'') of
             (Some (JObj container), JStr w) \<Rightarrow> w \<noteq> [] \<and> is_dict (dict_get container w)
           | _ \<Rightarrow> False)
      | _ \<Rightarrow> False)"

section \<open>Drift mutator (02\_mutate\_patch.py)\<close>

text \<open>
  The command-line choices of \<^verbatim>\<open>--mode\<close> and \<^verbatim>\<open>--order\<close>, and the three values the
  variable \<^verbatim>\<open>op_order\<close> takes (\<^verbatim>\<open>"rename_then_wrap"\<close>, \<^verbatim>\<open>"wrap_then_rename"\<close>, \<^verbatim>\<open>"n/a"\<close>).
\<close>

datatype drift_mode = Wrapper | Rename | Extra | Both | All | Random

datatype order_choice = RenameThenWrap | WrapThenRename | RandomOrder

datatype op_order = OpRenameThenWrap | OpWrapThenRename | OpNA

text \<open>
  The script draws from the generator of Python's \<^verbatim>\<open>random\<close> module, which is state of the
  whole process. The generator is a parameter of the model: a state type \<open>'g\<close>, the
  function \<open>randbelow\<close> that \<^verbatim>\<open>random.choice\<close> calls (it returns an index and the next
  state; the index is reduced here into the range the library guarantees), and the state
  \<open>seed_rng s\<close> that \<^verbatim>\<open>random.seed(s)\<close> installs. Every call site passes a non-empty list.
\<close>

definition choice :: "('g \<Rightarrow> nat \<Rightarrow> nat \<times> 'g) \<Rightarrow> 'g \<Rightarrow> 'a list \<Rightarrow> 'a \<times> 'g" where
  "choice randbelow g xs =
     (let (i, g') = randbelow g (length xs) in (xs ! (i mod length xs), g'))"

text \<open>The mutation log written to \<^verbatim>\<open>mutation_log.json\<close>.\<close>

record mutation_log =
  trial_id :: "int option"
  seed :: "int option"
  mode :: drift_mode
  use_rename :: bool
  rename_to :: "string option"
  use_wrap :: bool
  wrapper_key :: "string option"
  use_extra_struct :: bool
  extra_struct_key :: "string option"
  order :: op_order

text \<open>\<^verbatim>\<open>None\<close> or an integer, as \<^verbatim>\<open>json.dump\<close> writes it.\<close>

definition json_of_int_option :: "int option \<Rightarrow> json" where
  "json_of_int_option x = (case x of None \<Rightarrow> JNull | Some n \<Rightarrow> JNum n)"

text \<open>\<^verbatim>\<open>add_extra_struct\<close>: skipped without a key and when the key is already there.\<close>

definition add_extra_struct :: "string option \<Rightarrow> int option \<Rightarrow> int option \<Rightarrow> json_obj \<Rightarrow> json_obj" where
  "add_extra_struct extra_key args_trial_id args_seed container =
     (case extra_key of
        None \<Rightarrow> container
      | Some k \<Rightarrow>
          if k = [] then container
          else if k \<in> set (keys container) then container
          else container @
                 [(k, JObj [(''note'', JStr ''extra_struct noise field (ignorable)''),
                            (''trial_id'', json_of_int_option args_trial_id),
                            (''seed'', json_of_int_option args_seed)])])"

text \<open>\<^verbatim>\<open>current_functions_key\<close>.\<close>

definition current_functions_key :: "json_obj \<Rightarrow> py_error + string" where
  "current_functions_key p =
     (if CANON_KEY \<in> set (keys p) then Inr CANON_KEY
      else (case List.find (\<lambda>k. k \<in> set (keys p)) RENAME_VARIANTS of
              Some k \<Rightarrow> Inr k
            | None \<Rightarrow> Inl (KeyError ''Could not locate functions dict under canonical or known renamed keys.'')))"

text \<open>
  \<^verbatim>\<open>if rename_to and CANON_KEY in patch and rename_to not in patch:
      patch[rename_to] = patch.pop(CANON_KEY)\<close>
\<close>

definition rename_step :: "string option \<Rightarrow> json_obj \<Rightarrow> json_obj" where
  "rename_step rename_to_opt patch =
     (case rename_to_opt of
        None \<Rightarrow> patch
      | Some r \<Rightarrow>
          (case map_of patch CANON_KEY of
             None \<Rightarrow> patch
           | Some v \<Rightarrow>
               if r \<noteq> [] \<and> r \<notin> set (keys patch)
               then AList.delete CANON_KEY patch @ [(r, v)]
               else patch))"

text \<open>
  \<^verbatim>\<open>{wrapper_key: value}\<close>. In every run that wraps, \<^verbatim>\<open>wrapper_key\<close> is a string; a \<^verbatim>\<open>None\<close>
  key would be written by \<^verbatim>\<open>json.dump\<close> as \<^verbatim>\<open>"null"\<close>.
\<close>

definition wrap_value :: "string option \<Rightarrow> json \<Rightarrow> json" where
  "wrap_value wrapper_key_opt v =
     JObj [(case wrapper_key_opt of Some w \<Rightarrow> w | None \<Rightarrow> ''null'', v)]"

text \<open>
  \<^verbatim>\<open>functions_key = current_functions_key(patch)\<close>, the \<^verbatim>\<open>isinstance\<close> check, and
  \<^verbatim>\<open>patch[functions_key] = {wrapper_key: patch[functions_key]}\<close>.
\<close>

definition wrap_step :: "string option \<Rightarrow> json_obj \<Rightarrow> py_error + json_obj" where
  "wrap_step wrapper_key_opt patch =
     (case current_functions_key patch of
        Inl e \<Rightarrow> Inl e
      | Inr functions_key \<Rightarrow>
          (case map_of patch functions_key of
             Some (JObj d) \<Rightarrow>
               Inr (AList.update functions_key (wrap_value wrapper_key_opt (JObj d)) patch)
           | _ \<Rightarrow> Inl (TypeError ''Expected patch[functions_key] to be a dict before wrapping.'')))"

text \<open>
  The selection of the drift families: fixed by the mode, or three coin flips for
  \<^verbatim>\<open>random\<close>, with wrap forced when all three came out false.
\<close>

definition select_drifts ::
  "('g \<Rightarrow> nat \<Rightarrow> nat \<times> 'g) \<Rightarrow> 'g \<Rightarrow> drift_mode \<Rightarrow> (bool \<times> bool \<times> bool) \<times> 'g" where
  "select_drifts randbelow g args_mode =
     (if args_mode = Random then
        (let (r, g1) = choice randbelow g [True, False];
             (w, g2) = choice randbelow g1 [True, False];
             (x, g3) = choice randbelow g2 [True, False]
         in if \<not> (r \<or> w \<or> x) then ((r, True, x), g3) else ((r, w, x), g3))
      else
        ((args_mode \<in> {Rename, Both, All},
          args_mode \<in> {Wrapper, Both, All},
          args_mode \<in> {Extra, All}), g))"

text \<open>The branch structure that applies the drifts, after all parameters are chosen.\<close>

definition apply_drifts ::
  "bool \<Rightarrow> bool \<Rightarrow> bool \<Rightarrow> string option \<Rightarrow> string option \<Rightarrow> string option \<Rightarrow> op_order \<Rightarrow>
   int option \<Rightarrow> int option \<Rightarrow> json_obj \<Rightarrow> py_error + json_obj" where
  "apply_drifts u_rename u_wrap u_extra rename_to_opt wrapper_key_opt extra_key ord
       args_trial_id args_seed patch =
     (if u_rename \<and> u_wrap then
        (case ord of
           OpRenameThenWrap \<Rightarrow>
             (case wrap_step wrapper_key_opt (rename_step rename_to_opt patch) of
                Inl e \<Rightarrow> Inl e
              | Inr p \<Rightarrow> Inr (add_extra_struct extra_key args_trial_id args_seed p))
         | OpWrapThenRename \<Rightarrow>
             (case map_of patch CANON_KEY of
                None \<Rightarrow> Inl (KeyError CANON_KEY)
              | Some v \<Rightarrow>
                  Inr (add_extra_struct extra_key args_trial_id args_seed
                         (rename_step rename_to_opt
                            (AList.update CANON_KEY (wrap_value wrapper_key_opt v) patch))))
         | OpNA \<Rightarrow> Inl (ValueError ''Unexpected op_order: n/a''))
      else if u_rename then
        Inr (add_extra_struct extra_key args_trial_id args_seed (rename_step rename_to_opt patch))
      else if u_wrap then
        (case wrap_step wrapper_key_opt patch of
           Inl e \<Rightarrow> Inl e
         | Inr p \<Rightarrow> Inr (add_extra_struct extra_key args_trial_id args_seed p))
      else if u_extra then
        Inr (add_extra_struct extra_key args_trial_id args_seed patch)
      else Inl (RuntimeError ''No mutation applied.''))"

text \<open>
  \<^verbatim>\<open>main\<close>, from seeding to the two artifacts. \<open>g0\<close> is the state of the process-wide
  generator when the script starts; \<^verbatim>\<open>random.seed\<close> replaces it only when \<^verbatim>\<open>--seed\<close> was
  given. The checks and the draws come in the order of the source: the canonical key must
  be present, then the drifts and their parameters are drawn (a rename needs an unused
  variant), then the canonical value must be a dictionary, then the drifts are applied.
\<close>

definition mutate ::
  "('g \<Rightarrow> nat \<Rightarrow> nat \<times> 'g) \<Rightarrow> (int \<Rightarrow> 'g) \<Rightarrow> 'g \<Rightarrow>
   drift_mode \<Rightarrow> int option \<Rightarrow> int option \<Rightarrow> order_choice \<Rightarrow> json_obj \<Rightarrow>
   py_error + (json_obj \<times> mutation_log)" where
  "mutate randbelow seed_rng g0 args_mode args_seed args_trial_id args_order patch =
     (let g = (case args_seed of Some s \<Rightarrow> seed_rng s | None \<Rightarrow> g0) in
      if CANON_KEY \<notin> set (keys patch)
      then Inl (KeyError ''Expected top-level key functions not found in patch_reference.json.'')
      else
        (let ((u_rename, u_wrap, u_extra), g1) = select_drifts randbelow g args_mode;
             candidates = filter (\<lambda>k. k \<notin> set (keys patch)) RENAME_VARIANTS
         in if u_rename \<and> candidates = [] then Inl (RuntimeError ''No available rename targets'')
            else
              (let (rename_to_opt, g2) =
                     (if u_rename then (let (r, g') = choice randbelow g1 candidates in (Some r, g'))
                      else (None, g1));
                   (wrapper_key_opt, g3) =
                     (if u_wrap then (let (w, g') = choice randbelow g2 WRAPPER_VARIANTS in (Some w, g'))
                      else (None, g2));
                   (extra_key, g4) =
                     (if u_extra then (let (x, g') = choice randbelow g3 EXTRA_STRUCT_KEYS in (Some x, g'))
                      else (None, g3));
                   ord =
                     (if u_rename \<and> u_wrap then
                        (case args_order of
                           RandomOrder \<Rightarrow> fst (choice randbelow g4 [OpRenameThenWrap, OpWrapThenRename])
                         | RenameThenWrap \<Rightarrow> OpRenameThenWrap
                         | WrapThenRename \<Rightarrow> OpWrapThenRename)
                      else OpNA)
               in if \<not> is_dict (dict_get patch CANON_KEY)
                  then Inl (TypeError ''Expected patch[functions] to be a dict.'')
                  else
                    (case apply_drifts u_rename u_wrap u_extra rename_to_opt wrapper_key_opt
                            extra_key ord args_trial_id args_seed patch of
                       Inl e \<Rightarrow> Inl e
                     | Inr p \<Rightarrow>
                         Inr (p, \<lparr> trial_id = args_trial_id, seed = args_seed, mode = args_mode,
                                  use_rename = u_rename, rename_to = rename_to_opt,
                                  use_wrap = u_wrap, wrapper_key = wrapper_key_opt,
                                  use_extra_struct = u_extra, extra_struct_key = extra_key,
                                  order = ord \<rparr>)))))"



text \<open>
  A trivial generator, used only to evaluate the model on concrete inputs: the state is a
  counter, each draw returns it and increments it; seeding sets the counter.
\<close>

definition demo_randbelow :: "nat \<Rightarrow> nat \<Rightarrow> nat \<times> nat" where
  "demo_randbelow g n = (g, Suc g)"

definition demo_seed_rng :: "int \<Rightarrow> nat" where
  "demo_seed_rng s = nat \<bar>s\<bar>"

section \<open>Structural verifier (06\_compare\_original\_vs\_repaired.py)\<close>

text \<open>
  \<^verbatim>\<open>sha256_of_strings\<close>: each key followed by a newline, fed to SHA-256 in order. The digest
  function of \<^verbatim>\<open>hashlib\<close> is a parameter.
\<close>

definition sha256_of_strings :: "(string \<Rightarrow> string) \<Rightarrow> string list \<Rightarrow> string" where
  "sha256_of_strings sha256_hex strings = sha256_hex (concat (map (\<lambda>s. s @ [CHR 0x0A]) strings))"

text \<open>\<^verbatim>\<open>summarize_functions\<close>: count, sorted keys, hash of the sorted keys.\<close>

definition summarize_functions :: "(string \<Rightarrow> string) \<Rightarrow> json_obj \<Rightarrow> nat \<times> string list \<times> string" where
  "summarize_functions sha256_hex patch =
     (case dict_get_default patch CANON_KEY (JObj []) of
        JObj fns \<Rightarrow>
          (let ks = sort (keys fns) in (length ks, ks, sha256_of_strings sha256_hex ks))
      | _ \<Rightarrow> (0, [], ''NOT_A_DICT''))"

text \<open>The functions-keyset check of \<^verbatim>\<open>main\<close>: \<^verbatim>\<open>o_keys == r_keys\<close> prints PASS.\<close>

definition functions_keyset_pass :: "(string \<Rightarrow> string) \<Rightarrow> json_obj \<Rightarrow> json_obj \<Rightarrow> bool" where
  "functions_keyset_pass sha256_hex orig repaired =
     (let (o_n, o_keys, o_hash) = summarize_functions sha256_hex orig;
          (r_n, r_keys, r_hash) = summarize_functions sha256_hex repaired
      in o_keys = r_keys)"

text \<open>The top-level check of \<^verbatim>\<open>main\<close>: sorted top-level keys, noise keys left out.\<close>

definition top_level_keys :: "json_obj \<Rightarrow> string list" where
  "top_level_keys patch = sort (filter (\<lambda>k. k \<notin> set EXTRA_STRUCT_KEYS) (keys patch))"

definition top_level_keys_pass :: "json_obj \<Rightarrow> json_obj \<Rightarrow> bool" where
  "top_level_keys_pass orig repaired = (top_level_keys orig = top_level_keys repaired)"

section \<open>Excerpt extractor (SchemaRepairPatcher.extract\_excerpt)\<close>








section \<open>Oracle response parsing (\_extract\_json\_object, infer\_plan\_from\_patch)\<close>

text \<open>
  The response is a Python \<^verbatim>\<open>str\<close>: a sequence of Unicode code points. \<open>ustr\<close> turns an
  ASCII literal into such a sequence.
\<close>

type_synonym ustring = "nat list"

definition ustr :: "string \<Rightarrow> ustring" where
  "ustr s = map of_char s"

definition LF :: nat where "LF = 0x0A"

definition CR :: nat where "CR = 0x0D"

definition BACKTICK :: nat where "BACKTICK = 0x60"

definition LBRACE :: nat where "LBRACE = 0x7B"

definition RBRACE :: nat where "RBRACE = 0x7D"

text \<open>
  The code points that \<^verbatim>\<open>str.strip()\<close> removes (those with \<^verbatim>\<open>str.isspace()\<close>): tab to
  carriage return, U+001C to U+001F, space, U+0085, U+00A0, U+1680, U+2000 to U+200A,
  U+2028, U+2029, U+202F, U+205F, U+3000.
\<close>

definition py_isspace :: "nat \<Rightarrow> bool" where
  "py_isspace c =
     ((0x09 \<le> c \<and> c \<le> 0x0D) \<or> (0x1C \<le> c \<and> c \<le> 0x20) \<or> c = 0x85 \<or> c = 0xA0 \<or>
      c = 0x1680 \<or> (0x2000 \<le> c \<and> c \<le> 0x200A) \<or> c = 0x2028 \<or> c = 0x2029 \<or>
      c = 0x202F \<or> c = 0x205F \<or> c = 0x3000)"

definition py_strip :: "ustring \<Rightarrow> ustring" where
  "py_strip s = rev (dropWhile py_isspace (rev (dropWhile py_isspace s)))"

text \<open>
  The line boundaries of \<^verbatim>\<open>str.splitlines()\<close>: line feed, vertical tab, form feed,
  carriage return (with a following line feed as one boundary), U+001C to U+001E, U+0085,
  U+2028, U+2029.
\<close>

definition is_linebreak :: "nat \<Rightarrow> bool" where
  "is_linebreak c =
     ((0x0A \<le> c \<and> c \<le> 0x0D) \<or> (0x1C \<le> c \<and> c \<le> 0x1E) \<or> c = 0x85 \<or>
      c = 0x2028 \<or> c = 0x2029)"

text \<open>\<^verbatim>\<open>splitlines\<close>: \<open>cur\<close> is the line read so far; no empty line after a final terminator.\<close>

fun splitlines_from :: "ustring \<Rightarrow> ustring \<Rightarrow> ustring list" where
  "splitlines_from cur [] = (if cur = [] then [] else [cur])"
| "splitlines_from cur [c] = (if is_linebreak c then [cur] else [cur @ [c]])"
| "splitlines_from cur (c # d # cs) =
     (if c = CR \<and> d = LF then cur # splitlines_from [] cs
      else if is_linebreak c then cur # splitlines_from [] (d # cs)
      else splitlines_from (cur @ [c]) (d # cs))"

definition splitlines :: "ustring \<Rightarrow> ustring list" where
  "splitlines s = splitlines_from [] s"

text \<open>\<^verbatim>\<open>sep.join(xs)\<close>.\<close>

fun py_join :: "ustring \<Rightarrow> ustring list \<Rightarrow> ustring" where
  "py_join sep [] = []"
| "py_join sep [x] = x"
| "py_join sep (x # y # ys) = x @ sep @ py_join sep (y # ys)"

text \<open>\<^verbatim>\<open>s.find(c)\<close> and \<^verbatim>\<open>s.rfind(c)\<close> for one character; \<open>None\<close> is Python's \<^verbatim>\<open>-1\<close>.\<close>

fun py_find :: "nat \<Rightarrow> ustring \<Rightarrow> nat option" where
  "py_find c [] = None"
| "py_find c (x # xs) = (if x = c then Some 0 else map_option Suc (py_find c xs))"

definition py_rfind :: "nat \<Rightarrow> ustring \<Rightarrow> nat option" where
  "py_rfind c s = (case py_find c (rev s) of None \<Rightarrow> None | Some i \<Rightarrow> Some (length s - 1 - i))"

text \<open>\<^verbatim>\<open>s[start:stop]\<close> for \<^verbatim>\<open>0 <= start\<close>.\<close>

definition py_slice :: "ustring \<Rightarrow> nat \<Rightarrow> nat \<Rightarrow> ustring" where
  "py_slice s start stop = take (stop - start) (drop start s)"

text \<open>The first step of \<^verbatim>\<open>_extract_json_object\<close>: strip, and drop the fence lines if present.\<close>

definition strip_fences :: "ustring \<Rightarrow> ustring" where
  "strip_fences text =
     (let stripped = py_strip text in
      if take 3 stripped = [BACKTICK, BACKTICK, BACKTICK] then
        (let lines = splitlines stripped in
         if length lines \<ge> 3 then py_strip (py_join [LF] (butlast (tl lines)))
         else stripped)
      else stripped)"

text \<open>
  \<^verbatim>\<open>_extract_json_object\<close>. The parser \<^verbatim>\<open>json.loads\<close> of the standard library is the
  parameter \<open>loads\<close>: \<open>None\<close> when it raises.
\<close>

definition extract_json_object :: "(ustring \<Rightarrow> json option) \<Rightarrow> ustring \<Rightarrow> py_error + ustring" where
  "extract_json_object loads text =
     (let stripped = strip_fences text in
      case loads stripped of
        Some v \<Rightarrow> Inr stripped
      | None \<Rightarrow>
          (case (py_find LBRACE stripped, py_rfind RBRACE stripped) of
             (Some start, Some end) \<Rightarrow>
               if end \<le> start then Inl (ValueError ''No JSON object found in LLM output.'')
               else
                 (let candidate = py_slice stripped start (end + 1) in
                  case loads candidate of
                    Some v \<Rightarrow> Inr candidate
                  | None \<Rightarrow> Inl (ValueError ''Extracted JSON is invalid''))
           | _ \<Rightarrow> Inl (ValueError ''No JSON object found in LLM output.'')))"



text \<open>
  For evaluating the model on concrete responses: the text of the empty plan,
  \<^verbatim>\<open>{"actions": []}\<close>, and a stand-in for \<^verbatim>\<open>json.loads\<close> that parses this text and rejects
  every other (it is applied below only to texts that are not JSON).
\<close>

definition empty_plan_text :: ustring where
  "empty_plan_text = ustr (''{'' @ [CHR 0x22] @ ''actions'' @ [CHR 0x22] @ '': []}'')"

definition demo_loads :: "ustring \<Rightarrow> json option" where
  "demo_loads s = (if s = empty_plan_text then Some (JObj [(''actions'', JArr [])]) else None)"

section \<open>Repair engine: execution order\<close>


lemma sorted_key_split:
  "sorted (map f ys) \<Longrightarrow> filter (\<lambda>y. f y \<le> (k::nat)) ys @ filter (\<lambda>y. \<not> f y \<le> k) ys = ys"
proof (induction ys)
  case Nil
  then show ?case by simp
next
  case (Cons y ys)
  then have le: "\<forall>z\<in>set ys. f y \<le> f z" and IH: "filter (\<lambda>y. f y \<le> k) ys @ filter (\<lambda>y. \<not> f y \<le> k) ys = ys"
    by simp_all
  show ?case
  proof (cases "f y \<le> k")
    case True
    then show ?thesis using IH by simp
  next
    case False
    with le have "\<forall>z\<in>set ys. \<not> f z \<le> k" by auto
    then have "filter (\<lambda>y. f y \<le> k) ys = []" "filter (\<lambda>y. \<not> f y \<le> k) ys = ys"
      by (simp_all add: filter_empty_conv filter_id_conv)
    with False show ?thesis by simp
  qed
qed

lemma priority_range: "priority a = 0 \<or> priority a = 1 \<or> priority a = 99"
  by (simp add: priority_def)

lemma sort_key_priority:
  "sort_key priority xs =
     filter (\<lambda>a. priority a = 0) xs @ filter (\<lambda>a. priority a = 1) xs @ filter (\<lambda>a. priority a = 99) xs"
proof -
  define ys where "ys = sort_key priority xs"
  have s: "sorted (map priority ys)" by (simp add: ys_def)
  define zs where "zs = filter (\<lambda>a. \<not> priority a \<le> 0) ys"
  have 1: "filter (\<lambda>a. priority a \<le> 0) ys @ zs = ys"
    unfolding zs_def using s by (rule sorted_key_split)
  have sz: "sorted (map priority zs)"
    unfolding zs_def using s by (rule sorted_filter)
  have 2: "filter (\<lambda>a. priority a \<le> 1) zs @ filter (\<lambda>a. \<not> priority a \<le> 1) zs = zs"
    using sz by (rule sorted_key_split)
  have p0: "filter (\<lambda>a. priority a \<le> 0) ys = filter (\<lambda>a. priority a = 0) ys"
    by simp
  have a: "filter (\<lambda>a. priority a \<le> 1) zs = filter (\<lambda>a. priority a = 1) ys"
    unfolding zs_def filter_filter by (rule filter_cong) auto
  have b: "filter (\<lambda>a. \<not> priority a \<le> 1) zs = filter (\<lambda>a. priority a = 99) ys"
    unfolding zs_def filter_filter by (rule filter_cong) (auto simp: priority_def)
  have "ys = filter (\<lambda>a. priority a = 0) ys @ filter (\<lambda>a. priority a = 1) ys @ filter (\<lambda>a. priority a = 99) ys"
    using 1 [unfolded p0, symmetric] 2 [unfolded a b, symmetric] by simp
  then show ?thesis
    unfolding ys_def sort_key_stable .
qed


lemma priority_0: "(priority a = 0) = is_rename a"
  by (simp add: priority_def is_rename_def)

lemma priority_1: "(priority a = Suc 0) = is_unwrap a"
  by (simp add: priority_def is_unwrap_def)

lemma priority_99: "(priority a = 99) = is_other a"
  by (simp add: priority_def is_unwrap_def is_rename_def is_other_def)

lemma sort_key_priority_kinds:
  "sort_key priority xs = filter is_rename xs @ filter is_unwrap xs @ filter is_other xs"
  using sort_key_priority [of xs] by (simp add: priority_0 priority_1 priority_99)

lemma run_actions_append:
  "run_actions i (xs @ ys) p logs =
     (case run_actions i xs p logs of
        Inl e \<Rightarrow> Inl e
      | Inr (p', logs') \<Rightarrow> run_actions (i + length xs) ys p' logs')"
  by (induction xs arbitrary: i p logs) (auto split: sum.splits)

lemma run_actions_noop:
  assumes "\<forall>a\<in>set as. \<forall>i. \<exists>l. apply_action i a p = Inr (p, l) \<and> \<not> is_applied l"
  shows "\<exists>logs'. run_actions i as p logs = Inr (p, logs @ logs') \<and> (\<forall>l\<in>set logs'. \<not> is_applied l)"
  using assms
proof (induction as arbitrary: i logs)
  case Nil
  then show ?case by simp
next
  case (Cons a as)
  from Cons.prems obtain l where l: "apply_action i a p = Inr (p, l)" "\<not> is_applied l"
    by force
  from Cons.IH [of "Suc i" "logs @ [l]"] Cons.prems
  obtain logs' where "run_actions (Suc i) as p (logs @ [l]) = Inr (p, (logs @ [l]) @ logs')"
      "\<forall>l\<in>set logs'. \<not> is_applied l"
    by auto
  with l show ?case
    by (intro exI [of _ "l # logs'"]) simp
qed

lemma other_noop:
  "is_other a \<Longrightarrow> \<exists>l. apply_action i a p = Inr (p, l) \<and> \<not> is_applied l"
  by (cases a) (simp_all add: is_other_def is_rename_def is_unwrap_def op_of_def apply_action_def)

lemma map_of_None_keys: "(map_of p k = None) = (k \<notin> set (keys p))"
  by (simp add: keys_def map_of_eq_None_iff)

lemma rename_stable:
  assumes "is_rename r" "apply_action i r D = Inr (D', l)" "set (keys P) = set (keys D')"
  shows "\<exists>l'. apply_action j r P = Inr (P, l') \<and> \<not> is_applied l'"
proof -
  from assms(1) obtain a where r: "r = JObj a" and op: "dict_get a ''op'' = JStr ''rename_key''"
    by (cases r) (simp_all add: is_rename_def op_of_def)
  show ?thesis
  proof (cases "\<not> truthy (dict_get a ''from'') \<or> \<not> truthy (dict_get a ''to'')")
    case True
    then show ?thesis by (auto simp: r op apply_action_def apply_rename_def Let_def)
  next
    case False
    with assms(2) obtain s where s: "hash_key (dict_get a ''from'') = Some s"
      by (auto simp: r op apply_action_def apply_rename_def Let_def split: option.splits)
    show ?thesis
    proof (cases "map_of D s")
      case None
      with assms(2) False s have "D' = D"
        by (auto simp: r op apply_action_def apply_rename_def Let_def)
      with None assms(3) have "map_of P s = None"
        by (simp add: map_of_None_keys)
      with False s show ?thesis
        by (auto simp: r op apply_action_def apply_rename_def Let_def)
    next
      case (Some v)
      with assms(2) False s obtain d where d: "hash_key (dict_get a ''to'') = Some d"
        by (auto simp: r op apply_action_def apply_rename_def Let_def split: option.splits)
      show ?thesis
      proof (cases "d \<in> set (keys D)")
        case True
        with assms(2) False s d Some have "D' = D"
          by (auto simp: r op apply_action_def apply_rename_def Let_def)
        with True assms(3) have "d \<in> set (keys P)" by simp
        with False s d show ?thesis
          by (auto simp: r op apply_action_def apply_rename_def Let_def split: option.splits)
      next
        case dn: False
        with assms(2) False s d Some have D': "D' = AList.delete s D @ [(d, v)]"
          by (auto simp: r op apply_action_def apply_rename_def Let_def)
        from Some have "s \<in> set (keys D)"
          using map_of_None_keys [of D s] by auto
        with dn have "s \<noteq> d" by auto
        then have "s \<notin> set (keys D')"
          by (simp add: D' keys_def delete_keys)
        with assms(3) have "map_of P s = None"
          by (simp add: map_of_None_keys)
        with False s show ?thesis
          by (auto simp: r op apply_action_def apply_rename_def Let_def)
      qed
    qed
  qed
qed




lemma unwrap_obj:
  "is_unwrap u \<Longrightarrow> \<exists>a. u = JObj a \<and> dict_get a ''op'' = JStr ''unwrap''"
  by (cases u) (simp_all add: is_unwrap_def op_of_def)

lemma unwrap_invariant:
  assumes "is_unwrap u" "apply_action i u P = Inr (P', l)"
  shows "keys P' = keys P \<and> has_dict_container P' = has_dict_container P"
proof -
  from unwrap_obj [OF assms(1)] obtain a where u: "u = JObj a" and op: "dict_get a ''op'' = JStr ''unwrap''"
    by blast
  have "P' = P \<or> (\<exists>c inner. map_of P (KStr CANON_KEY) = Some (JObj c) \<and>
          P' = AList.update (KStr CANON_KEY) (JObj inner) P)"
    using assms(2)
    by (auto simp: u op apply_action_def apply_unwrap_def Let_def
             split: if_splits option.splits json.splits pykey.splits)
  then show ?thesis
  proof
    assume "P' = P" then show ?thesis by simp
  next
    assume "\<exists>c inner. map_of P (KStr CANON_KEY) = Some (JObj c) \<and>
          P' = AList.update (KStr CANON_KEY) (JObj inner) P"
    then obtain c inner where c: "map_of P (KStr CANON_KEY) = Some (JObj c)"
      and P': "P' = AList.update (KStr CANON_KEY) (JObj inner) P" by blast
    from c have "KStr CANON_KEY \<in> set (map fst P)"
      using map_of_None_keys [of P "KStr CANON_KEY"] by (auto simp: keys_def)
    then have "keys P' = keys P"
      by (simp add: P' keys_def update_keys)
    moreover have "has_dict_container P' = has_dict_container P"
      by (simp add: P' c has_dict_container_def update_conv')
    ultimately show ?thesis by simp
  qed
qed

lemma unwrap_stable:
  assumes "is_unwrap u" "apply_action i u P = Inr (P', l)"
    "has_dict_container Q = has_dict_container P" "\<not> unwrap_applicable u Q"
  shows "\<exists>l'. apply_action j u Q = Inr (Q, l') \<and> \<not> is_applied l'"
proof -
  from unwrap_obj [OF assms(1)] obtain a where u: "u = JObj a" and op: "dict_get a ''op'' = JStr ''unwrap''"
    by blast
  show ?thesis
  proof (cases "dict_get_default a ''path'' (JArr []) \<noteq> JArr [JStr CANON_KEY] \<or> \<not> truthy (dict_get a ''wrapper_key'')")
    case True
    then show ?thesis
      by (auto simp: u op apply_action_def apply_unwrap_def Let_def)
  next
    case valid: False
    show ?thesis
    proof (cases "has_dict_container Q")
      case False
      then show ?thesis using valid
        by (auto simp: u op apply_action_def apply_unwrap_def Let_def has_dict_container_def
                 split: option.splits json.splits)
    next
      case True
      with assms(3) have "has_dict_container P" by simp
      with assms(2) valid obtain k where k: "hash_key (dict_get a ''wrapper_key'') = Some k"
        by (auto simp: u op apply_action_def apply_unwrap_def Let_def has_dict_container_def
                 split: option.splits json.splits)
      from True obtain c where c: "map_of Q (KStr CANON_KEY) = Some (JObj c)"
        by (auto simp: has_dict_container_def split: option.splits json.splits)
      show ?thesis
      proof (cases k)
        case (KStr w)
        with k have wk: "dict_get a ''wrapper_key'' = JStr w"
          by (cases "dict_get a ''wrapper_key''") (auto split: if_splits)
        with valid have "w \<noteq> []" by simp
        with assms(4) have "\<not> is_dict (dict_get c w)"
          using valid by (simp add: unwrap_applicable_def u op c wk)
        then have "\<forall>inner. map_of c w \<noteq> Some (JObj inner)"
          by (auto simp: dict_get_def dict_get_default_def)
        then show ?thesis using valid
          by (auto simp: u op apply_action_def apply_unwrap_def Let_def c wk
                 split: option.splits json.splits)
      next
        case (KNum n)
        then show ?thesis using valid k
          by (auto simp: u op apply_action_def apply_unwrap_def Let_def c)
      next
        case (KFloat x)
        then show ?thesis using valid k
          by (auto simp: u op apply_action_def apply_unwrap_def Let_def c)
      next
        case KNone
        then show ?thesis using valid k
          by (auto simp: u op apply_action_def apply_unwrap_def Let_def c)
      qed
    qed
  qed
qed

lemma unwrap_phase_invariant:
  assumes "\<forall>u\<in>set us. is_unwrap u" "run_actions i us P logs = Inr (P1, logs1)"
  shows "keys P1 = keys P \<and> has_dict_container P1 = has_dict_container P"
  using assms
proof (induction us arbitrary: i P logs)
  case Nil
  then show ?case by simp
next
  case (Cons u us)
  from Cons.prems(2) obtain P' l where step: "apply_action i u P = Inr (P', l)"
    and rest: "run_actions (Suc i) us P' (logs @ [l]) = Inr (P1, logs1)"
    by (auto split: sum.splits)
  from Cons.prems(1) have "is_unwrap u" by simp
  from unwrap_invariant [OF this step] Cons.IH [OF _ rest] Cons.prems(1)
  show ?case by simp
qed

lemma unwrap_phase_stable:
  assumes "\<forall>u\<in>set us. is_unwrap u" "run_actions i us P logs = Inr (P1, logs1)"
    "u \<in> set us" "\<not> unwrap_applicable u P1"
  shows "\<exists>l'. apply_action j u P1 = Inr (P1, l') \<and> \<not> is_applied l'"
  using assms
proof (induction us arbitrary: i P logs)
  case Nil
  then show ?case by simp
next
  case (Cons a us)
  from Cons.prems(2) obtain P' l where step: "apply_action i a P = Inr (P', l)"
    and rest: "run_actions (Suc i) us P' (logs @ [l]) = Inr (P1, logs1)"
    by (auto split: sum.splits)
  from Cons.prems(1) have a: "is_unwrap a" and us: "\<forall>u\<in>set us. is_unwrap u" by simp_all
  show ?case
  proof (cases "u = a")
    case True
    have "has_dict_container P1 = has_dict_container P"
      using unwrap_invariant [OF a step] unwrap_phase_invariant [OF us rest] by simp
    from unwrap_stable [OF a step this] Cons.prems(4) True show ?thesis by simp
  next
    case False
    with Cons.prems(3) have "u \<in> set us" by simp
    from Cons.IH [OF us rest this Cons.prems(4)] show ?thesis .
  qed
qed

lemma other_phase:
  assumes "\<forall>a\<in>set os. is_other a" "run_actions i os P logs = Inr (P1, logs1)"
  shows "P1 = P"
proof -
  from run_actions_noop [of os P i logs] assms(1) other_noop
  obtain logs' where "run_actions i os P logs = Inr (P, logs @ logs')" by blast
  with assms(2) show ?thesis by simp
qed

lemma rename_phase:
  assumes "\<forall>a\<in>set rs. is_rename a" "length rs \<le> 1" "run_actions i rs D logs = Inr (D', logs')"
    "r \<in> set rs" "set (keys P) = set (keys D')"
  shows "\<exists>l'. apply_action j r P = Inr (P, l') \<and> \<not> is_applied l'"
proof -
  from assms(2,4) have rs: "rs = [r]"
    by (cases rs) auto
  with assms(3) obtain l where "apply_action i r D = Inr (D', l)"
    by (auto split: sum.splits)
  from rename_stable [OF _ this assms(5)] assms(1) rs show ?thesis by simp
qed


text \<open>
  C4. The actions run in a fixed priority order, whatever their order in the plan: the
  executed sequence is the plan's \<^verbatim>\<open>rename_key\<close> actions, then its \<^verbatim>\<open>unwrap\<close> actions, then
  all others, each group in plan order. So in the executed sequence no \<^verbatim>\<open>unwrap\<close> action
  stands before a \<^verbatim>\<open>rename_key\<close> action. (An unhashable \<^verbatim>\<open>op\<close> makes the sort raise
  before anything runs.)
\<close>

theorem rename_before_unwrap:
  assumes "map_of plan ''actions'' = Some (JArr actions)"
  shows "apply_plan_to_patch patch plan =
           (if list_ex op_unhashable actions then Inl (TypeError ''unhashable type'')
            else run_actions 0
                   (filter is_rename actions @ filter is_unwrap actions @ filter is_other actions)
                   patch []) \<and>
         (\<forall>acts i j. sorted_actions actions = Inr acts \<and> i < j \<and> j < length acts \<and>
            is_unwrap (acts ! i) \<longrightarrow> \<not> is_rename (acts ! j))"
proof (intro conjI allI impI)
  show "apply_plan_to_patch patch plan =
           (if list_ex op_unhashable actions then Inl (TypeError ''unhashable type'')
            else run_actions 0
                   (filter is_rename actions @ filter is_unwrap actions @ filter is_other actions)
                   patch [])"
    using assms
    by (simp add: apply_plan_to_patch_def dict_get_default_def sorted_actions_def
                  sort_key_priority_kinds)
next
  fix acts i j
  assume a: "sorted_actions actions = Inr acts \<and> i < j \<and> j < length acts \<and>
            is_unwrap (acts ! i)"
  then have "acts = sort_key priority actions"
    by (auto simp: sorted_actions_def split: if_splits)
  then have "sorted (map priority acts)" by simp
  with a have "priority (acts ! i) \<le> priority (acts ! j)"
    by (simp add: sorted_iff_nth_mono)
  moreover from a have "priority (acts ! i) = Suc 0" by (simp add: priority_1)
  ultimately have "priority (acts ! j) \<noteq> 0" by simp
  then show "\<not> is_rename (acts ! j)" by (simp add: priority_0)
qed

theorem rename_before_unwrap_witness:
  "apply_plan_to_patch [(KStr ''function'', JObj [(''wrapped'', JObj [])])]
     [(''actions'', JArr
        [JObj [(''op'', JStr ''unwrap''), (''path'', JArr [JStr ''functions'']),
               (''wrapper_key'', JStr ''wrapped'')],
         JStr ''noise'',
         JObj [(''op'', JStr ''rename_key''), (''from'', JStr ''function''),
               (''to'', JStr ''functions'')]])]
   = run_actions 0
       [JObj [(''op'', JStr ''rename_key''), (''from'', JStr ''function''),
              (''to'', JStr ''functions'')],
        JObj [(''op'', JStr ''unwrap''), (''path'', JArr [JStr ''functions'']),
              (''wrapper_key'', JStr ''wrapped'')],
        JStr ''noise'']
       [(KStr ''function'', JObj [(''wrapped'', JObj [])])] []"
  using rename_before_unwrap
    [of "[(''actions'', JArr
        [JObj [(''op'', JStr ''unwrap''), (''path'', JArr [JStr ''functions'']),
               (''wrapper_key'', JStr ''wrapped'')],
         JStr ''noise'',
         JObj [(''op'', JStr ''rename_key''), (''from'', JStr ''function''),
               (''to'', JStr ''functions'')]])]"
        "[JObj [(''op'', JStr ''unwrap''), (''path'', JArr [JStr ''functions'']),
               (''wrapper_key'', JStr ''wrapped'')],
         JStr ''noise'',
         JObj [(''op'', JStr ''rename_key''), (''from'', JStr ''function''),
               (''to'', JStr ''functions'')]]"
        "[(KStr ''function'', JObj [(''wrapped'', JObj [])])]"]
  by (simp add: is_rename_def is_unwrap_def is_other_def op_unhashable_def op_of_def
        dict_get_def dict_get_default_def)

section \<open>Repair engine: applying a plan twice\<close>

text \<open>
  C1 (as amended). Let a plan hold at most one \<^verbatim>\<open>rename_key\<close> action (and any number of
  other actions). If applying it to a patch \<open>D\<close> succeeds with patch \<open>E\<close>, and no unwrap
  action of the plan is applicable to \<open>E\<close> (the functions container of \<open>E\<close> holds no
  mapping under the action's wrapper key), then applying the plan to \<open>E\<close> succeeds,
  returns \<open>E\<close> unchanged, and logs no action as applied.
\<close>

theorem apply_plan_twice:
  assumes acts: "dict_get_default plan ''actions'' (JArr []) = JArr actions"
    and one: "length (filter is_rename actions) \<le> 1"
    and first: "apply_plan_to_patch D plan = Inr (E, logs)"
    and flat: "\<forall>u\<in>set actions. \<not> unwrap_applicable u E"
  shows "\<exists>logs2. apply_plan_to_patch E plan = Inr (E, logs2) \<and> (\<forall>l\<in>set logs2. \<not> is_applied l)"
proof -
  let ?rs = "filter is_rename actions" and ?us = "filter is_unwrap actions"
    and ?os = "filter is_other actions"
  from first acts have hashable: "\<not> list_ex op_unhashable actions"
    by (auto simp: apply_plan_to_patch_def sorted_actions_def split: if_splits)
  then have sorted: "sorted_actions actions = Inr (?rs @ ?us @ ?os)"
    by (simp add: sorted_actions_def sort_key_priority_kinds)
  with first acts have run: "run_actions 0 (?rs @ ?us @ ?os) D [] = Inr (E, logs)"
    by (simp add: apply_plan_to_patch_def)
  then obtain D' lr where r: "run_actions 0 ?rs D [] = Inr (D', lr)"
    and run2: "run_actions (0 + length ?rs) (?us @ ?os) D' lr = Inr (E, logs)"
    by (auto simp: run_actions_append [of 0 ?rs] split: sum.splits)
  then obtain D'' lu where u: "run_actions (0 + length ?rs) ?us D' lr = Inr (D'', lu)"
    and o: "run_actions (0 + length ?rs + length ?us) ?os D'' lu = Inr (E, logs)"
    by (auto simp: run_actions_append [of _ ?us] split: sum.splits)
  have "E = D''"
    using other_phase [OF _ o] by simp
  with u have u1: "run_actions (0 + length ?rs) ?us D' lr = Inr (E, lu)" by simp
  have keys: "set (keys E) = set (keys D')"
    using unwrap_phase_invariant [OF _ u1] by simp
  have "\<forall>a\<in>set (?rs @ ?us @ ?os). \<forall>j. \<exists>l. apply_action j a E = Inr (E, l) \<and> \<not> is_applied l"
  proof (intro ballI allI)
    fix a j
    assume "a \<in> set (?rs @ ?us @ ?os)"
    then consider "a \<in> set ?rs" | "a \<in> set ?us" | "a \<in> set ?os" by auto
    then show "\<exists>l. apply_action j a E = Inr (E, l) \<and> \<not> is_applied l"
    proof cases
      case 1
      from rename_phase [OF _ one r 1 keys] show ?thesis by simp
    next
      case 2
      then have "\<not> unwrap_applicable a E" using flat by simp
      from unwrap_phase_stable [OF _ u1 2 this] show ?thesis by simp
    next
      case 3
      then have "is_other a" by simp
      then show ?thesis by (rule other_noop)
    qed
  qed
  from run_actions_noop [OF this, of 0 "[]"] sorted acts show ?thesis
    by (simp add: apply_plan_to_patch_def)
qed


text \<open>
  The plan of the \<^verbatim>\<open>both\<close> drift: rename \<^verbatim>\<open>function\<close> back, then unwrap \<^verbatim>\<open>wrapped\<close>.
\<close>

theorem apply_plan_twice_witness:
  "\<exists>logs2.
     apply_plan_to_patch [(KStr ''functions'', JObj [(''f1'', JObj [])])]
       [(''actions'', JArr
          [JObj [(''op'', JStr ''unwrap''), (''path'', JArr [JStr ''functions'']),
                 (''wrapper_key'', JStr ''wrapped'')],
           JObj [(''op'', JStr ''rename_key''), (''path'', JArr []),
                 (''from'', JStr ''function''), (''to'', JStr ''functions'')]])]
     = Inr ([(KStr ''functions'', JObj [(''f1'', JObj [])])], logs2) \<and>
     (\<forall>l\<in>set logs2. \<not> is_applied l)"
proof (rule apply_plan_twice
    [where D = "[(KStr ''function'', JObj [(''wrapped'', JObj [(''f1'', JObj [])])])]"
       and logs = "[RenameApplied 0 (JStr ''function'') (JStr ''functions''),
                     UnwrapApplied 1 (JStr ''wrapped'')]"
       and actions = "[JObj [(''op'', JStr ''unwrap''), (''path'', JArr [JStr ''functions'']),
                 (''wrapper_key'', JStr ''wrapped'')],
           JObj [(''op'', JStr ''rename_key''), (''path'', JArr []),
                 (''from'', JStr ''function''), (''to'', JStr ''functions'')]]"])
  show "dict_get_default
     [(''actions'', JArr
          [JObj [(''op'', JStr ''unwrap''), (''path'', JArr [JStr ''functions'']),
                 (''wrapper_key'', JStr ''wrapped'')],
           JObj [(''op'', JStr ''rename_key''), (''path'', JArr []),
                 (''from'', JStr ''function''), (''to'', JStr ''functions'')]])]
     ''actions'' (JArr []) =
     JArr [JObj [(''op'', JStr ''unwrap''), (''path'', JArr [JStr ''functions'']),
                 (''wrapper_key'', JStr ''wrapped'')],
           JObj [(''op'', JStr ''rename_key''), (''path'', JArr []),
                 (''from'', JStr ''function''), (''to'', JStr ''functions'')]]"
    by (simp add: dict_get_default_def)
  show "length (filter is_rename
          [JObj [(''op'', JStr ''unwrap''), (''path'', JArr [JStr ''functions'']),
                 (''wrapper_key'', JStr ''wrapped'')],
           JObj [(''op'', JStr ''rename_key''), (''path'', JArr []),
                 (''from'', JStr ''function''), (''to'', JStr ''functions'')]]) \<le> 1"
    by (simp add: is_rename_def op_of_def dict_get_def dict_get_default_def)
  show "apply_plan_to_patch [(KStr ''function'', JObj [(''wrapped'', JObj [(''f1'', JObj [])])])]
       [(''actions'', JArr
          [JObj [(''op'', JStr ''unwrap''), (''path'', JArr [JStr ''functions'']),
                 (''wrapper_key'', JStr ''wrapped'')],
           JObj [(''op'', JStr ''rename_key''), (''path'', JArr []),
                 (''from'', JStr ''function''), (''to'', JStr ''functions'')]])]
     = Inr ([(KStr ''functions'', JObj [(''f1'', JObj [])])],
            [RenameApplied 0 (JStr ''function'') (JStr ''functions''),
             UnwrapApplied 1 (JStr ''wrapped'')])"
    by (simp add: apply_plan_to_patch_def sorted_actions_def op_unhashable_def op_of_def
          priority_def dict_get_def dict_get_default_def apply_action_def apply_rename_def
          apply_unwrap_def keys_def CANON_KEY_def)
  show "\<forall>u\<in>set [JObj [(''op'', JStr ''unwrap''), (''path'', JArr [JStr ''functions'']),
                 (''wrapper_key'', JStr ''wrapped'')],
           JObj [(''op'', JStr ''rename_key''), (''path'', JArr []),
                 (''from'', JStr ''function''), (''to'', JStr ''functions'')]].
          \<not> unwrap_applicable u [(KStr ''functions'', JObj [(''f1'', JObj [])])]"
    by (simp add: unwrap_applicable_def dict_get_def dict_get_default_def CANON_KEY_def)
qed

text \<open>
  The unrestricted statement of the specification fails when the wrapper key occurs again inside the unwrapped
  container: each application peels one more layer.
\<close>

theorem apply_plan_twice_counterexample:
  "apply_plan_to_patch
     [(KStr ''functions'', JObj [(''wrapped'', JObj [(''wrapped'', JObj [(''f1'', JObj [])])])])]
     [(''actions'', JArr
        [JObj [(''op'', JStr ''unwrap''), (''path'', JArr [JStr ''functions'']),
               (''wrapper_key'', JStr ''wrapped'')]])]
   = Inr ([(KStr ''functions'', JObj [(''wrapped'', JObj [(''f1'', JObj [])])])],
          [UnwrapApplied 0 (JStr ''wrapped'')]) \<and>
   apply_plan_to_patch
     [(KStr ''functions'', JObj [(''wrapped'', JObj [(''f1'', JObj [])])])]
     [(''actions'', JArr
        [JObj [(''op'', JStr ''unwrap''), (''path'', JArr [JStr ''functions'']),
               (''wrapper_key'', JStr ''wrapped'')]])]
   = Inr ([(KStr ''functions'', JObj [(''f1'', JObj [])])],
          [UnwrapApplied 0 (JStr ''wrapped'')]) \<and>
   [(KStr ''functions'', JObj [(''f1'', JObj [])])]
     \<noteq> [(KStr ''functions'', JObj [(''wrapped'', JObj [(''f1'', JObj [])])])]"
  by (simp add: apply_plan_to_patch_def sorted_actions_def op_unhashable_def op_of_def
        priority_def dict_get_def dict_get_default_def apply_action_def
        apply_unwrap_def keys_def CANON_KEY_def)

text \<open>
  Two \<^verbatim>\<open>rename_key\<close> actions can chain across applications: the first application moves
  \<^verbatim>\<open>a\<close> to \<^verbatim>\<open>b\<close>, the second moves \<^verbatim>\<open>b\<close> on to \<^verbatim>\<open>c\<close>. Hence the bound on renames above.
\<close>

lemma rename_chain_twice:
  "apply_plan_to_patch [(KStr ''a'', JNum 1)]
     [(''actions'', JArr
        [JObj [(''op'', JStr ''rename_key''), (''from'', JStr ''b''), (''to'', JStr ''c'')],
         JObj [(''op'', JStr ''rename_key''), (''from'', JStr ''a''), (''to'', JStr ''b'')]])]
   = Inr ([(KStr ''b'', JNum 1)],
          [RenameNoChange 0 (JStr ''b'') (JStr ''c''), RenameApplied 1 (JStr ''a'') (JStr ''b'')]) \<and>
   apply_plan_to_patch [(KStr ''b'', JNum 1)]
     [(''actions'', JArr
        [JObj [(''op'', JStr ''rename_key''), (''from'', JStr ''b''), (''to'', JStr ''c'')],
         JObj [(''op'', JStr ''rename_key''), (''from'', JStr ''a''), (''to'', JStr ''b'')]])]
   = Inr ([(KStr ''c'', JNum 1)],
          [RenameApplied 0 (JStr ''b'') (JStr ''c''), RenameNoChange 1 (JStr ''a'') (JStr ''b'')])"
  by (simp add: apply_plan_to_patch_def sorted_actions_def op_unhashable_def op_of_def
        priority_def dict_get_def dict_get_default_def apply_action_def apply_rename_def
        keys_def)

section \<open>Repair engine: the rename action\<close>

text \<open>
  C5 (as amended). A \<^verbatim>\<open>rename_key\<close> action never reads its \<^verbatim>\<open>path\<close>: whatever the path,
  it works on the top-level mapping and no path error exists. With \<^verbatim>\<open>from\<close> and \<^verbatim>\<open>to\<close>
  non-empty strings, the value is moved (to the end of the mapping, under \<^verbatim>\<open>to\<close>) iff
  \<^verbatim>\<open>from\<close> is a top-level key and \<^verbatim>\<open>to\<close> is not; otherwise the patch is left as it is
  and a no-change line is logged. Nothing is raised.
\<close>

theorem rename_key_top_level:
  assumes "dict_get a ''op'' = JStr ''rename_key''"
    and "dict_get a ''from'' = JStr s" and "dict_get a ''to'' = JStr t"
    and "s \<noteq> []" and "t \<noteq> []"
  shows "apply_action i (JObj a) patch =
           (if KStr s \<in> set (keys patch) \<and> KStr t \<notin> set (keys patch)
            then Inr (AList.delete (KStr s) patch @ [(KStr t, the (map_of patch (KStr s)))],
                      RenameApplied i (JStr s) (JStr t))
            else Inr (patch, RenameNoChange i (JStr s) (JStr t))) \<and>
         apply_action i (JObj (AList.update ''path'' p a)) patch = apply_action i (JObj a) patch"
proof
  show "apply_action i (JObj a) patch =
           (if KStr s \<in> set (keys patch) \<and> KStr t \<notin> set (keys patch)
            then Inr (AList.delete (KStr s) patch @ [(KStr t, the (map_of patch (KStr s)))],
                      RenameApplied i (JStr s) (JStr t))
            else Inr (patch, RenameNoChange i (JStr s) (JStr t)))"
    using assms map_of_None_keys [of patch "KStr s"]
    by (auto simp: apply_action_def apply_rename_def Let_def split: option.splits)
next
  have same: "dict_get (AList.update ''path'' p a) k = dict_get a k" if "k \<noteq> ''path''" for k
    using that by (simp add: dict_get_def dict_get_default_def update_conv')
  show "apply_action i (JObj (AList.update ''path'' p a)) patch = apply_action i (JObj a) patch"
    using assms(1) by (simp add: apply_action_def apply_rename_def same)
qed

theorem rename_key_top_level_witness:
  "apply_action 0
     (JObj [(''op'', JStr ''rename_key''), (''path'', JArr []),
            (''from'', JStr ''function''), (''to'', JStr ''functions'')])
     [(KStr ''function'', JObj [(''f1'', JObj [])]), (KStr ''meta'', JNum 1)]
   = Inr ([(KStr ''meta'', JNum 1), (KStr ''functions'', JObj [(''f1'', JObj [])])],
          RenameApplied 0 (JStr ''function'') (JStr ''functions''))"
  using rename_key_top_level
    [of "[(''op'', JStr ''rename_key''), (''path'', JArr []),
          (''from'', JStr ''function''), (''to'', JStr ''functions'')]"
        "''function''" "''functions''" 0
        "[(KStr ''function'', JObj [(''f1'', JObj [])]), (KStr ''meta'', JNum 1)]"]
  by (simp add: dict_get_def dict_get_default_def keys_def)

text \<open>
  The statement of the specification fails here: a path with a missing segment does not make the rename fail;
  the rename is applied at the top level.
\<close>

theorem rename_key_path_counterexample:
  "apply_plan_to_patch [(KStr ''function'', JObj [])]
     [(''actions'', JArr
        [JObj [(''op'', JStr ''rename_key''), (''path'', JArr [JStr ''missing'', JStr ''deeper'']),
               (''from'', JStr ''function''), (''to'', JStr ''functions'')]])]
   = Inr ([(KStr ''functions'', JObj [])],
          [RenameApplied 0 (JStr ''function'') (JStr ''functions'')])"
  by (simp add: apply_plan_to_patch_def sorted_actions_def op_unhashable_def op_of_def
        priority_def dict_get_def dict_get_default_def apply_action_def apply_rename_def
        keys_def)
section \<open>Noise injection and the verifier\<close>

lemma map_of_append_old:
  "map_of (p @ [(k', v)]) k = map_of p k" if "k \<in> set (keys p) \<or> k \<noteq> k'"
proof (cases "map_of p k")
  case None
  then have "k \<notin> set (keys p)"
    by (simp add: keys_def map_of_eq_None_iff)
  with that have "k \<noteq> k'" by auto
  with None show ?thesis by (simp add: map_add_def)
next
  case (Some x)
  then show ?thesis by (simp add: map_add_def)
qed

lemma add_extra_struct_cases:
  "add_extra_struct extra_key tid sd patch = patch \<or>
   (\<exists>k v. extra_key = Some k \<and> k \<notin> set (keys patch) \<and>
          add_extra_struct extra_key tid sd patch = patch @ [(k, v)])"
  by (auto simp: add_extra_struct_def split: option.splits)

lemma add_extra_struct_map_of:
  assumes "k \<in> set (keys patch) \<or> extra_key \<noteq> Some k"
  shows "map_of (add_extra_struct extra_key tid sd patch) k = map_of patch k"
proof -
  from add_extra_struct_cases [of extra_key tid sd patch]
  show ?thesis
  proof
    assume "add_extra_struct extra_key tid sd patch = patch"
    then show ?thesis by simp
  next
    assume "\<exists>k' v. extra_key = Some k' \<and> k' \<notin> set (keys patch) \<and>
          add_extra_struct extra_key tid sd patch = patch @ [(k', v)]"
    then obtain k' v where k': "extra_key = Some k'"
      and eq: "add_extra_struct extra_key tid sd patch = patch @ [(k', v)]" by blast
    from assms k' have "k \<in> set (keys patch) \<or> k \<noteq> k'" by auto
    then show ?thesis
      unfolding eq by (rule map_of_append_old)
  qed
qed

lemma canon_not_noise: "CANON_KEY \<notin> set EXTRA_STRUCT_KEYS"
  by (simp add: CANON_KEY_def EXTRA_STRUCT_KEYS_def)

lemma rename_not_noise: "k \<in> set RENAME_VARIANTS \<Longrightarrow> k \<notin> set EXTRA_STRUCT_KEYS"
  by (auto simp: RENAME_VARIANTS_def EXTRA_STRUCT_KEYS_def)

lemma add_extra_struct_keys:
  "set (keys (add_extra_struct extra_key tid sd patch)) \<subseteq> set (keys patch) \<union> set_option extra_key"
  "set (keys patch) \<subseteq> set (keys (add_extra_struct extra_key tid sd patch))"
  using add_extra_struct_cases [of extra_key tid sd patch]
  by (auto simp: keys_def)

lemma add_extra_struct_top_level:
  assumes "\<forall>k. extra_key = Some k \<longrightarrow> k \<in> set EXTRA_STRUCT_KEYS"
  shows "top_level_keys (add_extra_struct extra_key tid sd patch) = top_level_keys patch"
  using add_extra_struct_cases [of extra_key tid sd patch] assms
  by (auto simp: top_level_keys_def keys_def)

lemma add_extra_struct_find:
  assumes "\<forall>k. extra_key = Some k \<longrightarrow> k \<in> set EXTRA_STRUCT_KEYS"
  shows "find_functions_key (add_extra_struct extra_key tid sd patch) = find_functions_key patch"
proof -
  let ?p = "add_extra_struct extra_key tid sd patch"
  have mem: "(k \<in> set (keys ?p)) = (k \<in> set (keys patch))" if "k \<notin> set EXTRA_STRUCT_KEYS" for k
    using that add_extra_struct_keys [where extra_key = extra_key and patch = patch and tid = tid and sd = sd] assms
    by (cases extra_key) auto
  have "List.find (\<lambda>k. k \<in> set (keys ?p)) RENAME_VARIANTS
      = List.find (\<lambda>k. k \<in> set (keys patch)) RENAME_VARIANTS"
    by (rule find_cong) (simp_all add: mem rename_not_noise)
  then show ?thesis
    by (simp add: find_functions_key_def mem canon_not_noise)
qed

lemma add_extra_struct_summary:
  assumes "\<forall>k. extra_key = Some k \<longrightarrow> k \<in> set EXTRA_STRUCT_KEYS"
  shows "summarize_functions sha (add_extra_struct extra_key tid sd patch) = summarize_functions sha patch"
proof -
  have "extra_key \<noteq> Some CANON_KEY"
    using assms canon_not_noise by auto
  then have "map_of (add_extra_struct extra_key tid sd patch) CANON_KEY = map_of patch CANON_KEY"
    by (simp add: add_extra_struct_map_of)
  then show ?thesis
    by (simp add: summarize_functions_def dict_get_default_def)
qed

text \<open>
  C7. Injecting a noise key (one of the noise vocabulary, as the mutator draws it) leaves
  every existing entry of the patch as it was, in particular the value at the canonical
  key and the key that holds the functions container; so the verifier's summary of the
  functions and its functions-keyset verdict are the same with the noise as without, on
  either side. The key is skipped when already present. The verifier's top-level key
  lists hold no noise key, and the top-level verdict is the same with the noise as without.
\<close>

theorem noise_injection_frame:
  assumes "\<forall>k. extra_key = Some k \<longrightarrow> k \<in> set EXTRA_STRUCT_KEYS"
  shows "(\<forall>k\<in>set (keys patch).
            map_of (add_extra_struct extra_key tid sd patch) k = map_of patch k) \<and>
         map_of (add_extra_struct extra_key tid sd patch) CANON_KEY = map_of patch CANON_KEY \<and>
         find_functions_key (add_extra_struct extra_key tid sd patch) = find_functions_key patch \<and>
         summarize_functions sha (add_extra_struct extra_key tid sd patch)
           = summarize_functions sha patch \<and>
         functions_keyset_pass sha orig (add_extra_struct extra_key tid sd patch)
           = functions_keyset_pass sha orig patch \<and>
         functions_keyset_pass sha (add_extra_struct extra_key tid sd patch) other
           = functions_keyset_pass sha patch other \<and>
         (\<forall>k. extra_key = Some k \<and> k \<in> set (keys patch) \<longrightarrow>
            add_extra_struct extra_key tid sd patch = patch) \<and>
         set (top_level_keys patch) \<inter> set EXTRA_STRUCT_KEYS = {} \<and>
         top_level_keys (add_extra_struct extra_key tid sd patch) = top_level_keys patch \<and>
         top_level_keys_pass orig (add_extra_struct extra_key tid sd patch)
           = top_level_keys_pass orig patch \<and>
         top_level_keys_pass (add_extra_struct extra_key tid sd patch) other
           = top_level_keys_pass patch other"
proof -
  have "extra_key \<noteq> Some CANON_KEY"
    using assms canon_not_noise by auto
  then have "map_of (add_extra_struct extra_key tid sd patch) CANON_KEY = map_of patch CANON_KEY"
    by (simp add: add_extra_struct_map_of)
  moreover have "\<forall>k. extra_key = Some k \<and> k \<in> set (keys patch) \<longrightarrow>
            add_extra_struct extra_key tid sd patch = patch"
    by (simp add: add_extra_struct_def)
  moreover have "set (top_level_keys patch) \<inter> set EXTRA_STRUCT_KEYS = {}"
    by (auto simp: top_level_keys_def)
  ultimately show ?thesis
    using assms
    by (simp add: add_extra_struct_map_of add_extra_struct_find add_extra_struct_summary
          add_extra_struct_top_level functions_keyset_pass_def top_level_keys_pass_def)
qed

theorem noise_injection_frame_witness:
  "map_of (add_extra_struct (Some ''temp_block'') None (Some 7)
             [(''functions'', JObj [(''f1'', JObj [])])]) CANON_KEY
     = map_of [(''functions'', JObj [(''f1'', JObj [])])] CANON_KEY \<and>
   top_level_keys (add_extra_struct (Some ''temp_block'') None (Some 7)
             [(''functions'', JObj [(''f1'', JObj [])])])
     = top_level_keys [(''functions'', JObj [(''f1'', JObj [])])]"
  using noise_injection_frame
    [of "Some ''temp_block''" "[(''functions'', JObj [(''f1'', JObj [])])]" None "Some 7"]
  by (simp add: EXTRA_STRUCT_KEYS_def)

text \<open>
  C2. The specification requires a side whose canonical value is not a mapping to fail
  the functions-keyset check. The code gives such a side the empty key list and the marker
  \<^verbatim>\<open>NOT_A_DICT\<close> as its hash, and then compares the key lists only: two documents whose
  canonical values are a number and a string pass the check.
\<close>

theorem not_a_dict_passes:
  "summarize_functions sha [(''functions'', JNum 1)] = (0, [], ''NOT_A_DICT'') \<and>
   summarize_functions sha [(''functions'', JStr ''broken'')] = (0, [], ''NOT_A_DICT'') \<and>
   functions_keyset_pass sha [(''functions'', JNum 1)] [(''functions'', JStr ''broken'')]"
  by (simp add: functions_keyset_pass_def summarize_functions_def dict_get_default_def CANON_KEY_def)

section \<open>Drift mutator: determinism and preconditions\<close>

text \<open>
  C3 (as amended). When a seed is given, the run re-seeds the process-wide generator
  first, and the result (the mutated patch and the mutation record, or the error) is a
  function of the seed, mode, order, trial id and patch alone: it is the same whatever
  state the generator was in before.
\<close>

theorem mutate_seeded_deterministic:
  "mutate randbelow seed_rng g args_mode (Some s) args_trial_id args_order patch
   = mutate randbelow seed_rng g' args_mode (Some s) args_trial_id args_order patch"
  by (simp add: mutate_def)

text \<open>
  Without a seed the draws come from the state the process-wide generator happens to be
  in, and two runs with the same arguments differ.
\<close>

theorem mutate_unseeded_counterexample:
  "mutate demo_randbelow demo_seed_rng 0 Wrapper None None RandomOrder
     [(''functions'', JObj [(''f1'', JObj [])])]
   \<noteq> mutate demo_randbelow demo_seed_rng 1 Wrapper None None RandomOrder
     [(''functions'', JObj [(''f1'', JObj [])])]"
  by (simp add: mutate_def select_drifts_def choice_def demo_randbelow_def
        WRAPPER_VARIANTS_def apply_drifts_def wrap_step_def current_functions_key_def
        keys_def CANON_KEY_def dict_get_def dict_get_default_def wrap_value_def
        add_extra_struct_def)





text \<open>Two runs with seed 4 from different ambient generator states.\<close>

theorem mutate_seeded_deterministic_witness:
  "mutate demo_randbelow demo_seed_rng 0 All (Some 4) None WrapThenRename
     [(''functions'', JObj [(''f1'', JObj [])])]
   = mutate demo_randbelow demo_seed_rng 1 All (Some 4) None WrapThenRename
     [(''functions'', JObj [(''f1'', JObj [])])]"
  using mutate_seeded_deterministic
    [of demo_randbelow demo_seed_rng 0 All 4 None WrapThenRename
        "[(''functions'', JObj [(''f1'', JObj [])])]" 1]
  by simp
section \<open>Excerpt extractor: bounds, keys only, and the wrapper heuristic\<close>


















section \<open>Oracle response parsing: one well-formed object or a failure\<close>


lemma py_find_none: "c \<notin> set s \<Longrightarrow> py_find c s = None"
  by (induction s) auto



lemma py_rfind_none: "c \<notin> set s \<Longrightarrow> py_rfind c s = None"
  by (simp add: py_rfind_def py_find_none)
























text \<open>A fenced response: the fence lines go, the object between them is returned.\<close>

lemma empty_plan_text_code_points:
  "empty_plan_text = [123, 34, 97, 99, 116, 105, 111, 110, 115, 34, 58, 32, 91, 93, 125]"
  by (simp add: empty_plan_text_def ustr_def)

lemma extract_fenced:
  "extract_json_object demo_loads
     ([LF] @ ustr ''```json'' @ [LF] @ empty_plan_text @ [CR, LF] @ ustr ''```'' @ [LF])
   = Inr empty_plan_text"
  by (simp add: extract_json_object_def strip_fences_def py_strip_def py_isspace_def
        splitlines_def is_linebreak_def demo_loads_def empty_plan_text_code_points ustr_def
        LF_def CR_def BACKTICK_def LBRACE_def RBRACE_def)


section \<open>Repair engine: the shape of the plan\<close>

text \<open>
  C10. A plan dictionary without the key \<^verbatim>\<open>actions\<close> is an empty plan: the patch comes back
  unchanged, the log is empty and nothing is raised. A plan whose \<^verbatim>\<open>actions\<close> value is
  present but not a list raises \<^verbatim>\<open>ValueError\<close>, whatever the patch, so before any action.
\<close>

theorem plan_actions_shape:
  "(map_of plan ''actions'' = None \<longrightarrow> apply_plan_to_patch patch plan = Inr (patch, [])) \<and>
   (\<forall>v. map_of plan ''actions'' = Some v \<and> \<not> is_list v \<longrightarrow>
        apply_plan_to_patch patch plan = Inl (ValueError ''Plan actions must be a list.''))"
proof (intro conjI impI allI)
  assume "map_of plan ''actions'' = None"
  then show "apply_plan_to_patch patch plan = Inr (patch, [])"
    by (simp add: apply_plan_to_patch_def dict_get_default_def sorted_actions_def)
next
  fix v
  assume "map_of plan ''actions'' = Some v \<and> \<not> is_list v"
  then show "apply_plan_to_patch patch plan = Inl (ValueError ''Plan actions must be a list.'')"
    by (cases v) (simp_all add: apply_plan_to_patch_def dict_get_default_def)
qed

theorem plan_actions_shape_witness:
  "apply_plan_to_patch [(KStr ''functions'', JObj [])] [(''note'', JStr ''x'')]
     = Inr ([(KStr ''functions'', JObj [])], []) \<and>
   apply_plan_to_patch [(KStr ''functions'', JObj [])] [(''actions'', JStr ''unwrap'')]
     = Inl (ValueError ''Plan actions must be a list.'')"
  using plan_actions_shape [of "[(''note'', JStr ''x'')]" "[(KStr ''functions'', JObj [])]"]
        plan_actions_shape [of "[(''actions'', JStr ''unwrap'')]" "[(KStr ''functions'', JObj [])]"]
  by simp

end
